theory Spec2Isabelle
  imports Main "HOL-Library.Word"
begin

unbundle bit_operations_syntax

section \<open>Machine types and logging\<close>

type_synonym u16 = "16 word"
type_synonym s16 = "16 word"
type_synonym u32 = "32 word"
type_synonym s32 = "32 word"

text \<open>
  \<open>ERROR_LOG\<close> and \<open>WARN_LOG\<close> append a line to the emulator's log. The log is
  part of the modelled state so that "logs the condition" is a statement about a value.
\<close>

datatype log_level = LERROR | LWARNING

datatype log_type = DSPHLE | AUDIO

text \<open>A log line: level, channel, format string, and the integer arguments of the format.\<close>

type_synonym log_line = "log_level \<times> log_type \<times> string \<times> u32 list"

section \<open>ZeldaUCode: the command buffer (Zelda.h)\<close>

datatype MailState = WAITING | RENDERING | WRITING_CMD | HALTED

text \<open>
  The data members of \<open>ZeldaUCode\<close>, in the order of the class declaration. Arrays
  are lists; \<open>m_cmd_buffer\<close> has 64 entries and \<open>m_sync_voice_skip_flags\<close> 256.
  The field \<open>log\<close> collects what the logging macros print.
\<close>

record ZeldaUCode =
  m_mail_current_state :: MailState
  m_mail_expected_cmd_mails :: u32
  m_sync_max_voice_id :: u32
  m_sync_voice_skip_flags :: "u32 list"
  m_cmd_buffer :: "u32 list"
  m_read_offset :: u32
  m_write_offset :: u32
  m_pending_commands_count :: u32
  m_cmd_can_execute :: bool
  m_rendering_requested_frames :: u32
  m_rendering_voices_per_frame :: u16
  m_rendering_curr_frame :: u32
  m_rendering_curr_voice :: u32
  log :: "log_line list"

text \<open>\<open>sizeof (m_cmd_buffer) / sizeof (u32)\<close>: 256 bytes over 4.\<close>

definition cmd_buffer_size :: u32 where
  "cmd_buffer_size = 64"

text \<open>The state of a freshly constructed object (the default member initialisers).\<close>

definition ZeldaUCode_init :: ZeldaUCode where
  "ZeldaUCode_init =
     \<lparr> m_mail_current_state = WAITING,
       m_mail_expected_cmd_mails = 0,
       m_sync_max_voice_id = 0,
       m_sync_voice_skip_flags = replicate 256 0,
       m_cmd_buffer = replicate 64 0,
       m_read_offset = 0,
       m_write_offset = 0,
       m_pending_commands_count = 0,
       m_cmd_can_execute = True,
       m_rendering_requested_frames = 0,
       m_rendering_voices_per_frame = 0,
       m_rendering_curr_frame = 0,
       m_rendering_curr_voice = 0,
       log = [] \<rparr>"

definition SetMailState :: "MailState \<Rightarrow> ZeldaUCode \<Rightarrow> ZeldaUCode" where
  "SetMailState new_state s = s\<lparr>m_mail_current_state := new_state\<rparr>"

text \<open>
  \<open>Read32\<close> returns the value read and the new state. When both cursors are equal it
  logs and returns 0 before touching anything else. The cursors are only ever assigned
  a value reduced modulo 64, so the index is in range in every reachable state
  (\<open>cursors_ok\<close> below); the theorems assume that invariant.
\<close>

definition Read32 :: "ZeldaUCode \<Rightarrow> u32 \<times> ZeldaUCode" where
  "Read32 s =
     (if m_read_offset s = m_write_offset s
      then (0, s\<lparr>log := log s @ [(LERROR, DSPHLE, ''Reading too many command params'', [])]\<rparr>)
      else
        let res = m_cmd_buffer s ! unat (m_read_offset s)
        in (res, s\<lparr>m_read_offset := (m_read_offset s + 1) mod cmd_buffer_size\<rparr>))"

definition Write32 :: "u32 \<Rightarrow> ZeldaUCode \<Rightarrow> ZeldaUCode" where
  "Write32 val s =
     s\<lparr>m_cmd_buffer := (m_cmd_buffer s)[unat (m_write_offset s) := val],
       m_write_offset := (m_write_offset s + 1) mod cmd_buffer_size\<rparr>"

text \<open>Calling \<open>Write32\<close> once per word of a list, first word first.\<close>

fun Write32_all :: "u32 list \<Rightarrow> ZeldaUCode \<Rightarrow> ZeldaUCode" where
  "Write32_all [] s = s"
| "Write32_all (v # vs) s = Write32_all vs (Write32 v s)"

text \<open>Calling \<open>Read32\<close> \<open>k\<close> times and collecting the values in call order.\<close>

fun Read32_times :: "nat \<Rightarrow> ZeldaUCode \<Rightarrow> u32 list \<times> ZeldaUCode" where
  "Read32_times 0 s = ([], s)"
| "Read32_times (Suc k) s =
     (let (v, s1) = Read32 s; (vs, s2) = Read32_times k s1 in (v # vs, s2))"

text \<open>The shape every reachable command buffer has.\<close>

definition cursors_ok :: "ZeldaUCode \<Rightarrow> bool" where
  "cursors_ok s \<longleftrightarrow>
     length (m_cmd_buffer s) = 64 \<and> unat (m_read_offset s) < 64 \<and> unat (m_write_offset s) < 64"

text \<open>
  \<open>queue_holds s xs\<close>: the words between the read and the write cursor are \<open>xs\<close>,
  oldest first, and fewer than 64 of them are pending.
\<close>

definition queue_holds :: "ZeldaUCode \<Rightarrow> u32 list \<Rightarrow> bool" where
  "queue_holds s xs \<longleftrightarrow>
     cursors_ok s \<and> length xs < 64 \<and>
     unat (m_write_offset s) = (unat (m_read_offset s) + length xs) mod 64 \<and>
     list_all (\<lambda>i. m_cmd_buffer s ! ((unat (m_read_offset s) + i) mod 64) = xs ! i) [0..<length xs]"

section \<open>ZeldaAudioRenderer: volume utilities (Zelda.h)\<close>

text \<open>
  Modelled from the spec: \<open>MathUtil::Clamp\<close> is declared in \<open>Common/MathUtil.h\<close>,
  which is not among the sources. The spec describes its use here as "clamping to
  \<open>[-32768, 32767]\<close>": a value below the lower bound becomes the lower bound, a
  value above the upper bound becomes the upper bound. The comparison is the signed one
  of \<open>s32\<close>.
\<close>

definition Clamp :: "s32 \<Rightarrow> s32 \<Rightarrow> s32 \<Rightarrow> s32" where
  "Clamp val lo hi = (if val <s lo then lo else if hi <s val then hi else val)"

text \<open>
  The body of the loop of \<open>ApplyVolumeInPlace<N, B>\<close>, for one sample:
  \<open>(u32)(*buf)[i]\<close> sign-extends the \<open>s16\<close> sample, \<open>(u32)vol\<close> zero-extends the
  \<open>u16\<close> volume, the product wraps modulo \<open>2^32\<close> and is stored in the \<open>s32\<close>
  \<open>tmp\<close>; \<open>tmp >>= 16 - B\<close> is an arithmetic shift; \<open>(s16)tmp\<close> keeps the low
  16 bits.
\<close>

definition ApplyVolumeInPlace_body :: "nat \<Rightarrow> u16 \<Rightarrow> s16 \<Rightarrow> s16" where
  "ApplyVolumeInPlace_body B vol x =
     (let tmp = (scast x :: u32) * (ucast vol :: u32);
          tmp = signed_drop_bit (16 - B) tmp;
          tmp = Clamp tmp (- 0x8000) 0x7fff
      in ucast tmp)"

text \<open>The loop \<open>for (size_t i = 0; i < N; ++i)\<close> over the array, \<open>N\<close> its length.\<close>

definition ApplyVolumeInPlace :: "nat \<Rightarrow> s16 list \<Rightarrow> u16 \<Rightarrow> s16 list" where
  "ApplyVolumeInPlace B buf vol =
     fold (\<lambda>i b. b[i := ApplyVolumeInPlace_body B vol (b ! i)]) [0..<length buf] buf"

definition ApplyVolumeInPlace_1_15 :: "s16 list \<Rightarrow> u16 \<Rightarrow> s16 list" where
  "ApplyVolumeInPlace_1_15 buf vol = ApplyVolumeInPlace 1 buf vol"

definition ApplyVolumeInPlace_4_12 :: "s16 list \<Rightarrow> u16 \<Rightarrow> s16 list" where
  "ApplyVolumeInPlace_4_12 buf vol = ApplyVolumeInPlace 4 buf vol"

text \<open>
  The expression \<open>((vol >> 16) * src[i]) >> 16\<close> of \<open>AddBuffersWithVolumeRamp\<close>:
  both shifts are arithmetic shifts of an \<open>s32\<close>, the sample is promoted to \<open>int\<close>.
\<close>

definition AddBuffersWithVolumeRamp_body :: "s32 \<Rightarrow> s16 \<Rightarrow> s32" where
  "AddBuffersWithVolumeRamp_body vol x = signed_drop_bit 16 (signed_drop_bit 16 vol * scast x)"

text \<open>
  \<open>vol += step\<close> adds two \<open>s32\<close> values. Signed overflow is undefined behaviour in
  C++: the source says nothing about the result then, and the model does not either. The
  addition returns the sum when it fits the type and the error otherwise.
\<close>

datatype undefined_behaviour = SignedOverflow

definition fits_s32 :: "int \<Rightarrow> bool" where
  "fits_s32 k \<longleftrightarrow> - (2 ^ 31) \<le> k \<and> k < 2 ^ 31"

definition add_s32 :: "s32 \<Rightarrow> s32 \<Rightarrow> undefined_behaviour + s32" where
  "add_s32 a b = (if fits_s32 (sint a + sint b) then Inr (a + b) else Inl SignedOverflow)"

text \<open>
  The loop \<open>for (size_t i = 0; i < N; ++i)\<close> of \<open>AddBuffersWithVolumeRamp<N>\<close>, over
  the indices still to visit. \<open>(*dst)[i] += e\<close> adds in \<open>int\<close> (the sum of an
  \<open>s16\<close> and a value of at most 15 bits cannot overflow) and keeps the low 16 bits;
  then \<open>vol += step\<close>.
\<close>

fun AddBuffersWithVolumeRamp_loop ::
  "nat list \<Rightarrow> s16 list \<Rightarrow> s16 list \<Rightarrow> s32 \<Rightarrow> s32 \<Rightarrow> undefined_behaviour + (s16 list \<times> s32)" where
  "AddBuffersWithVolumeRamp_loop [] dst src vol step = Inr (dst, vol)"
| "AddBuffersWithVolumeRamp_loop (i # is) dst src vol step =
     (let dst' = dst[i := ucast ((scast (dst ! i) :: s32) + AddBuffersWithVolumeRamp_body vol (src ! i))]
      in case add_s32 vol step of
           Inl ub \<Rightarrow> Inl ub
         | Inr vol' \<Rightarrow> AddBuffersWithVolumeRamp_loop is dst' src vol' step)"

text \<open>
  \<open>AddBuffersWithVolumeRamp<N>\<close> returns the new destination array and the volume, or
  the undefined behaviour it ran into. Both arrays have the same length \<open>N\<close> in the
  source; the theorems assume it.
\<close>

definition AddBuffersWithVolumeRamp ::
  "s16 list \<Rightarrow> s16 list \<Rightarrow> s32 \<Rightarrow> s32 \<Rightarrow> undefined_behaviour + (s16 list \<times> s32)" where
  "AddBuffersWithVolumeRamp dst src vol step =
     (if vol = 0 \<and> step = 0 then Inr (dst, vol)
      else AddBuffersWithVolumeRamp_loop [0..<length dst] dst src vol step)"

section \<open>Mail handling while a command is being written\<close>

text \<open>
  The opcode table of the protocol: \<open>cmd_params mail\<close> is the number of parameter mails
  of the multi-word command whose opcode is \<open>mail\<close>, and \<open>None\<close> when \<open>mail\<close> is
  not such an opcode. The table is defined in \<open>Zelda.cpp\<close>, which is not among the
  sources, and the spec leaves its values open, so the functions below take it as a
  parameter.
\<close>

type_synonym opcode_table = "u32 \<Rightarrow> u32 option"

text \<open>
  Modelled from the spec: \<open>ZeldaUCode::HandleMail\<close> is defined in \<open>Zelda.cpp\<close>, which
  is not among the sources; only its declaration and the state it works on are. The spec
  says of the state WAITING that a mail that is the opcode of a multi-word command causes
  a "transition to WRITING_CMD, recording how many further words are expected", and that
  the queued command consists of "opcode + parameters". \<open>expected\<close> is the parameter
  count the opcode table gives for \<open>mail\<close>.
\<close>

definition HandleMail_WAITING_command :: "u32 \<Rightarrow> u32 \<Rightarrow> ZeldaUCode \<Rightarrow> ZeldaUCode" where
  "HandleMail_WAITING_command expected mail s =
     SetMailState WRITING_CMD ((Write32 mail s)\<lparr>m_mail_expected_cmd_mails := expected\<rparr>)"

text \<open>
  Modelled from the spec: the case WRITING_CMD of \<open>ZeldaUCode::HandleMail\<close>
  (\<open>Zelda.cpp\<close>, not among the sources). "Each incoming mail is appended to the command
  buffer (\<open>Write32\<close>) until the expected parameter count for the current opcode is
  reached, then the complete command (opcode + parameters) is considered queued and state
  returns to WAITING." A mail that carries an opcode while parameters are still expected
  is a protocol violation, "mail received that is inconsistent with the current state",
  which must "escalate to HALTED": a command "given only 2 mails before a different opcode
  mail arrives, must transition to HALTED rather than silently reinterpreting the third
  mail as a parameter". The violating mail is not written to the buffer.
\<close>

definition HandleMail_WRITING_CMD :: "opcode_table \<Rightarrow> u32 \<Rightarrow> ZeldaUCode \<Rightarrow> ZeldaUCode" where
  "HandleMail_WRITING_CMD cmd_params mail s =
     (case cmd_params mail of
        Some n \<Rightarrow> SetMailState HALTED s
      | None \<Rightarrow>
         (let s1 = Write32 mail s;
              s2 = s1\<lparr>m_mail_expected_cmd_mails := m_mail_expected_cmd_mails s1 - 1\<rparr>
          in if m_mail_expected_cmd_mails s2 = 0
             then SetMailState WAITING
                    (s2\<lparr>m_pending_commands_count := m_pending_commands_count s2 + 1\<rparr>)
             else s2))"

text \<open>
  An opcode table with two multi-word commands, of 3 and of 2 parameters, to run the
  functions above on; its values are only an example.
\<close>

definition example_table :: opcode_table where
  "example_table mail =
     (if mail = 0x01000003 then Some 3 else if mail = 0x02000002 then Some 2 else None)"

section \<open>Loading the raw samples of a voice\<close>

text \<open>
  Modelled from the spec: \<open>struct VPB\<close> is only declared in \<open>Zelda.h\<close>. The spec lists
  its sample-source descriptor: "current read offset; loop point and loop-enabled flag;
  total sample count".
\<close>

record VPB =
  current_offset :: nat
  loop_point :: nat
  loop_enabled :: bool
  sample_count :: nat

text \<open>
  Modelled from the spec: \<open>ZeldaAudioRenderer::LoadInputSamples\<close> and the members it
  calls (\<open>DownloadRawSamplesFromMRAM\<close>, \<open>DownloadPCM8SamplesFromARAM\<close>,
  \<open>DownloadAFCSamplesFromARAM\<close>) are only declared in \<open>Zelda.h\<close>. The spec describes
  the fetch of \<open>requested_samples_count\<close> raw samples as a "direct copy honoring loop
  wraparound at the loop point or sample-count boundary", "with the same looping rule"
  for the other encodings, and requires that "a voice past end-of-sample with looping
  disabled must yield silence, not wrap". \<open>decode k\<close> is the decoded sample at sample
  offset \<open>k\<close> of the voice's source, whatever its encoding. A loop point that is not
  below the sample count is treated as no loop.
\<close>

fun DownloadSamples :: "(nat \<Rightarrow> s16) \<Rightarrow> nat \<Rightarrow> VPB \<Rightarrow> s16 list \<times> VPB" where
  "DownloadSamples decode 0 vpb = ([], vpb)"
| "DownloadSamples decode (Suc n) vpb =
     (if current_offset vpb < sample_count vpb then
        (let (xs, vpb') = DownloadSamples decode n (vpb\<lparr>current_offset := current_offset vpb + 1\<rparr>)
         in (decode (current_offset vpb) # xs, vpb'))
      else if loop_enabled vpb \<and> loop_point vpb < sample_count vpb then
        (let (xs, vpb') = DownloadSamples decode n (vpb\<lparr>current_offset := loop_point vpb + 1\<rparr>)
         in (decode (loop_point vpb) # xs, vpb'))
      else
        (let (xs, vpb') = DownloadSamples decode n vpb
         in (0 # xs, vpb')))"

section \<open>PulseAudio: the underflow callback (PulseAudioStream.cpp)\<close>

definition BUFFER_SAMPLES :: nat where
  "BUFFER_SAMPLES = 512"

definition CHANNEL_COUNT :: nat where
  "CHANNEL_COUNT = 2"

text \<open>\<open>sizeof(s16)\<close> is 2.\<close>

definition BUFFER_SIZE :: nat where
  "BUFFER_SIZE = BUFFER_SAMPLES * CHANNEL_COUNT * 2"

text \<open>
  \<open>pa_buffer_attr\<close> is the structure of the PulseAudio client library; its five fields
  are \<open>uint32_t\<close>.
\<close>

record pa_buffer_attr =
  maxlength :: u32
  tlength :: u32
  prebuf :: u32
  minreq :: u32
  fragsize :: u32

text \<open>
  The part of the \<open>PulseAudio\<close> object the callback works on. \<open>buffer_attr_requests\<close>
  collects the attributes passed to \<open>pa_stream_set_buffer_attr\<close>, oldest first, and
  \<open>pa_log\<close> what \<open>WARN_LOG\<close> prints.
\<close>

record PulseAudio =
  m_pa_ba :: pa_buffer_attr
  buffer_attr_requests :: "pa_buffer_attr list"
  pa_log :: "log_line list"

text \<open>The attributes \<open>PulseInit\<close> stores before it connects the stream.\<close>

definition PulseInit_buffer_attr :: pa_buffer_attr where
  "PulseInit_buffer_attr =
     \<lparr> maxlength = - 1, tlength = of_nat BUFFER_SIZE, prebuf = - 1, minreq = - 1, fragsize = - 1 \<rparr>"

definition PulseInit_state :: PulseAudio where
  "PulseInit_state =
     \<lparr> m_pa_ba = PulseInit_buffer_attr, buffer_attr_requests = [], pa_log = [] \<rparr>"

text \<open>
  \<open>m_pa_ba.tlength += BUFFER_SIZE\<close> stores the sum in a \<open>uint32_t\<close>: it is taken
  modulo \<open>2^32\<close>.
\<close>

definition UnderflowCallback :: "PulseAudio \<Rightarrow> PulseAudio" where
  "UnderflowCallback p =
     (let ba = (m_pa_ba p)\<lparr>tlength := tlength (m_pa_ba p) + of_nat BUFFER_SIZE\<rparr>
      in p\<lparr>m_pa_ba := ba,
           buffer_attr_requests := buffer_attr_requests p @ [ba],
           pa_log := pa_log p @
             [(LWARNING, AUDIO, ''pulseaudio underflow, new latency: %d bytes'', [tlength ba])]\<rparr>)"

section \<open>Cursor arithmetic\<close>

lemma unat_next_cursor:
  "unat ((x + 1) mod cmd_buffer_size :: u32) = (unat x + 1) mod 64"
proof -
  have "unat ((x + 1) mod cmd_buffer_size) = unat (x + 1) mod 64"
    by (simp add: cmd_buffer_size_def unat_mod)
  also have "\<dots> = ((unat x + 1) mod 2 ^ 32) mod 64"
    by (simp add: unat_word_ariths)
  also have "\<dots> = (unat x + 1) mod 64"
    by (rule mod_mod_cancel) simp
  finally show ?thesis .
qed

lemma Write32_cursors_ok: "cursors_ok s \<Longrightarrow> cursors_ok (Write32 v s)"
  by (simp add: cursors_ok_def Write32_def unat_next_cursor)

lemma Read32_cursors_ok: "cursors_ok s \<Longrightarrow> cursors_ok (snd (Read32 s))"
  by (simp add: cursors_ok_def Read32_def unat_next_cursor Let_def)

section \<open>The command buffer as a queue\<close>

lemma queue_holds_nth:
  "queue_holds s xs \<Longrightarrow> i < length xs \<Longrightarrow>
     m_cmd_buffer s ! ((unat (m_read_offset s) + i) mod 64) = xs ! i"
  by (simp add: queue_holds_def list_all_iff)

lemma cursor_distinct:
  assumes "i < n" and "n < 64"
  shows "(a + i) mod 64 \<noteq> (a + n) mod (64::nat)"
proof
  assume "(a + i) mod 64 = (a + n) mod 64"
  then have "(a + n) mod 64 = (a + i) mod 64" by simp
  moreover have "a + i \<le> a + n" using assms(1) by simp
  ultimately have "64 dvd (a + n) - (a + i)" by (simp only: mod_eq_dvd_iff_nat)
  then have "64 dvd n - i" by simp
  moreover have "0 < n - i" and "n - i < 64" using assms by simp_all
  ultimately show False by (meson nat_dvd_not_less)
qed

lemma queue_holds_Write32:
  assumes "queue_holds s xs" and "length xs < 63"
  shows "queue_holds (Write32 v s) (xs @ [v])"
proof -
  let ?a = "unat (m_read_offset s)"
  let ?n = "length xs"
  from assms have ok: "cursors_ok s" and w: "unat (m_write_offset s) = (?a + ?n) mod 64"
    by (simp_all add: queue_holds_def)
  have len: "length (m_cmd_buffer s) = 64" using ok by (simp add: cursors_ok_def)
  have ok': "cursors_ok (Write32 v s)" using ok by (rule Write32_cursors_ok)
  have w': "unat (m_write_offset (Write32 v s)) = (?a + (?n + 1)) mod 64"
    by (simp add: Write32_def unat_next_cursor w mod_simps)
  have cells: "(m_cmd_buffer (Write32 v s)) ! ((?a + i) mod 64) = (xs @ [v]) ! i"
    if "i < ?n + 1" for i
  proof (cases "i = ?n")
    case True
    then show ?thesis by (simp add: Write32_def w len)
  next
    case False
    with that have lt: "i < ?n" by simp
    with assms(2) have "(?a + i) mod 64 \<noteq> (?a + ?n) mod 64"
      by (intro cursor_distinct) simp_all
    then show ?thesis
      using lt queue_holds_nth [OF assms(1) lt] by (simp add: Write32_def w nth_append)
  qed
  show ?thesis
    unfolding queue_holds_def using ok' w' cells assms(2)
    by (simp add: list_all_iff Write32_def)
qed

lemma queue_holds_Write32_all:
  "queue_holds s xs \<Longrightarrow> length xs + length ws \<le> 63 \<Longrightarrow>
     queue_holds (Write32_all ws s) (xs @ ws)"
proof (induction ws arbitrary: s xs)
  case Nil
  then show ?case by simp
next
  case (Cons v vs)
  from Cons.prems have "queue_holds (Write32 v s) (xs @ [v])"
    by (intro queue_holds_Write32) simp_all
  from Cons.IH [OF this] Cons.prems(2) show ?case by simp
qed

lemma queue_holds_empty:
  "cursors_ok s \<Longrightarrow> m_read_offset s = m_write_offset s \<Longrightarrow> queue_holds s []"
  by (simp add: queue_holds_def cursors_ok_def)

lemma queue_holds_Nil_cursors:
  "queue_holds s [] \<Longrightarrow> m_read_offset s = m_write_offset s"
  by (simp add: queue_holds_def cursors_ok_def word_unat_eq_iff)

lemma queue_holds_Cons_cursors:
  assumes "queue_holds s (x # xs)"
  shows "m_read_offset s \<noteq> m_write_offset s"
proof
  assume eq: "m_read_offset s = m_write_offset s"
  let ?a = "unat (m_read_offset s)"
  from assms have w: "unat (m_write_offset s) = (?a + Suc (length xs)) mod 64"
    and n: "Suc (length xs) < 64" and a: "?a < 64"
    by (simp_all add: queue_holds_def cursors_ok_def)
  from eq w have "?a = (?a + Suc (length xs)) mod 64" by (simp only:)
  moreover from a have "(?a + 0) mod 64 = ?a" by simp
  ultimately have "(?a + 0) mod 64 = (?a + Suc (length xs)) mod 64" by (simp only:)
  moreover have "(?a + 0) mod 64 \<noteq> (?a + Suc (length xs)) mod 64"
    using n by (intro cursor_distinct) simp_all
  ultimately show False by (simp only:)
qed

lemma queue_holds_Read32:
  assumes "queue_holds s (x # xs)"
  shows "fst (Read32 s) = x" and "queue_holds (snd (Read32 s)) xs"
proof -
  let ?a = "unat (m_read_offset s)"
  have ne: "m_read_offset s \<noteq> m_write_offset s"
    using assms by (rule queue_holds_Cons_cursors)
  from assms have ok: "cursors_ok s" and a: "?a < 64"
    and w: "unat (m_write_offset s) = (?a + Suc (length xs)) mod 64"
    by (simp_all add: queue_holds_def cursors_ok_def)
  have "m_cmd_buffer s ! ((?a + 0) mod 64) = (x # xs) ! 0"
    using assms by (intro queue_holds_nth) simp_all
  with a show "fst (Read32 s) = x" using ne by (simp add: Read32_def)
  have s': "snd (Read32 s) = s\<lparr>m_read_offset := (m_read_offset s + 1) mod cmd_buffer_size\<rparr>"
    using ne by (simp add: Read32_def)
  have cells: "m_cmd_buffer s ! ((((?a + 1) mod 64) + i) mod 64) = xs ! i" if "i < length xs" for i
  proof -
    have "m_cmd_buffer s ! ((?a + Suc i) mod 64) = (x # xs) ! Suc i"
      using assms that by (intro queue_holds_nth) simp_all
    then show ?thesis by (simp add: mod_simps)
  qed
  have "cursors_ok (snd (Read32 s))" using ok by (rule Read32_cursors_ok)
  then show "queue_holds (snd (Read32 s)) xs"
    unfolding queue_holds_def using w cells assms
    by (simp add: s' unat_next_cursor list_all_iff mod_simps queue_holds_def)
qed

lemma Read32_times_queue:
  "queue_holds s xs \<Longrightarrow>
     fst (Read32_times (length xs) s) = xs \<and> queue_holds (snd (Read32_times (length xs) s)) []"
proof (induction xs arbitrary: s)
  case Nil
  then show ?case by simp
next
  case (Cons x xs)
  from queue_holds_Read32 [OF Cons.prems] Cons.IH [of "snd (Read32 s)"]
  show ?case by (simp add: split_beta)
qed

lemma Read32_empty:
  "m_read_offset s = m_write_offset s \<Longrightarrow>
     Read32 s = (0, s\<lparr>log := log s @ [(LERROR, DSPHLE, ''Reading too many command params'', [])]\<rparr>)"
  by (simp add: Read32_def)

lemma Write32_all_offsets:
  "m_read_offset (Write32_all ws s) = m_read_offset s \<and>
   unat (m_write_offset (Write32_all ws s)) = (unat (m_write_offset s) + length ws) mod 64"
  if "unat (m_write_offset s) < 64"
  using that
proof (induction ws arbitrary: s)
  case Nil
  then show ?case by simp
next
  case (Cons v vs)
  have "unat (m_write_offset (Write32 v s)) < 64"
    by (simp add: Write32_def unat_next_cursor)
  from Cons.IH [OF this] show ?case
    by (simp add: Write32_def unat_next_cursor mod_simps)
qed

lemma Read32_times_hd: "fst (Read32_times (Suc k) s) = fst (Read32 s) # fst (Read32_times k (snd (Read32 s)))"
  by (simp add: split_beta)

section \<open>Fixed-point arithmetic of the volume utilities\<close>

lemma sint_scast_16_32: "sint (scast (x :: 16 word) :: 32 word) = sint x"
  by (simp add: sint_up_scast is_up)

lemma sint_ucast_16_32: "sint (ucast (x :: 16 word) :: 32 word) = uint x"
proof -
  have "uint x < 2 ^ 16" using uint_lt2p [of x] by simp
  moreover have "(2::int) ^ 16 \<le> 2 ^ 31" by simp
  ultimately have hi: "uint x < 2 ^ 31" by (rule less_le_trans)
  have "- (2 ^ 31) \<le> (0::int)" by simp
  then have lo: "- (2 ^ 31) \<le> uint x" by (rule order_trans) simp
  from lo hi have "signed_take_bit 31 (uint x) = uint x"
    by (simp only: signed_take_bit_int_eq_self_iff)
  then show ?thesis by (simp add: signed_ucast_eq)
qed

lemma sint_ucast_32_16: "sint (ucast (x :: 32 word) :: 16 word) = signed_take_bit 15 (sint x)"
proof -
  have "sint (ucast x :: 16 word) = signed_take_bit 15 (uint x)"
    by (simp add: signed_ucast_eq)
  also have "\<dots> = signed_take_bit 15 (sint x)"
    by (simp add: sint_uint)
  finally show ?thesis .
qed

lemma prod_bound:
  fixes a b :: int
  assumes "- (2 ^ 15) \<le> a" "a < 2 ^ 15" "- (2 ^ 15) \<le> b" "b < 2 ^ 15"
  shows "- (2 ^ 30) \<le> a * b \<and> a * b \<le> 2 ^ 30"
proof -
  have "\<bar>a\<bar> \<le> 2 ^ 15" "\<bar>b\<bar> \<le> 2 ^ 15" using assms by simp_all
  then have "\<bar>a\<bar> * \<bar>b\<bar> \<le> 2 ^ 15 * 2 ^ 15" by (intro mult_mono) simp_all
  then have "\<bar>a * b\<bar> \<le> 2 ^ 30" by (simp add: abs_mult)
  then show ?thesis by (simp add: abs_le_iff)
qed

lemma prod_bound_u:
  fixes a b :: int
  assumes "- (2 ^ 15) \<le> a" "a < 2 ^ 15" "0 \<le> b" "b < 2 ^ 16"
  shows "- (2 ^ 31) \<le> a * b \<and> a * b < 2 ^ 31"
proof -
  have "\<bar>a\<bar> \<le> 2 ^ 15" "\<bar>b\<bar> \<le> 2 ^ 16 - 1" using assms by simp_all
  then have "\<bar>a\<bar> * \<bar>b\<bar> \<le> 2 ^ 15 * (2 ^ 16 - 1)" by (intro mult_mono) simp_all
  then have "\<bar>a * b\<bar> \<le> 2 ^ 15 * (2 ^ 16 - 1)" by (simp add: abs_mult)
  then show ?thesis by (simp add: abs_le_iff)
qed


lemma sint_range16: "- (2 ^ 15) \<le> sint (x :: 16 word) \<and> sint x < 2 ^ 15"
  using sint_ge [of x] sint_lt [of x] by simp

lemma sint_range32: "- (2 ^ 31) \<le> sint (x :: 32 word) \<and> sint x < 2 ^ 31"
  using sint_ge [of x] sint_lt [of x] by simp

lemma sint_volume_product:
  "sint ((scast (x :: s16) :: u32) * (ucast (vol :: u16) :: u32)) = sint x * uint vol"
proof -
  have "uint vol < 2 ^ 16" using uint_lt2p [of vol] by simp
  with sint_range16 [of x] have "- (2 ^ 31) \<le> sint x * uint vol \<and> sint x * uint vol < 2 ^ 31"
    by (intro prod_bound_u) simp_all
  then have "signed_take_bit 31 (sint x * uint vol) = sint x * uint vol"
    by (simp only: signed_take_bit_int_eq_self_iff)
  then show ?thesis
    by (simp add: sint_word_mult sint_scast_16_32 sint_ucast_16_32)
qed

lemma sint_Clamp:
  "sint (Clamp val (- 0x8000) 0x7fff) = max (- 32768) (min 32767 (sint val))"
  by (simp add: Clamp_def word_sless_alt max_def min_def)

lemma sint_ucast_small:
  assumes "- 32768 \<le> sint (x :: 32 word)" and "sint x \<le> 32767"
  shows "sint (ucast x :: 16 word) = sint x"
proof -
  from assms have "- (2 ^ 15) \<le> sint x \<and> sint x < 2 ^ 15" by simp
  then have "signed_take_bit 15 (sint x) = sint x"
    by (simp only: signed_take_bit_int_eq_self_iff)
  then show ?thesis by (simp add: sint_ucast_32_16)
qed

lemma sint_ApplyVolumeInPlace_body:
  "sint (ApplyVolumeInPlace_body B vol x) =
     max (- 32768) (min 32767 ((sint x * uint vol) div 2 ^ (16 - B)))"
proof -
  let ?t = "signed_drop_bit (16 - B) ((scast x :: u32) * (ucast vol :: u32))"
  have t: "sint ?t = (sint x * uint vol) div 2 ^ (16 - B)"
    by (simp add: sint_signed_drop_bit_eq sint_volume_product drop_bit_eq_div)
  have c: "sint (Clamp ?t (- 0x8000) 0x7fff) = max (- 32768) (min 32767 (sint ?t))"
    by (rule sint_Clamp)
  have lo: "- 32768 \<le> sint (Clamp ?t (- 0x8000) 0x7fff)" unfolding c by simp
  have hi: "sint (Clamp ?t (- 0x8000) 0x7fff) \<le> 32767" unfolding c by simp
  from lo hi have "sint (ucast (Clamp ?t (- 0x8000) 0x7fff) :: 16 word) = sint (Clamp ?t (- 0x8000) 0x7fff)"
    by (rule sint_ucast_small)
  then show ?thesis
    by (simp only: ApplyVolumeInPlace_body_def Let_def c t)
qed

lemma fold_update_map:
  "n \<le> length buf \<Longrightarrow>
     fold (\<lambda>i b. b[i := f (b ! i)]) [0..<n] buf = map f (take n buf) @ drop n buf"
proof (induction n)
  case 0
  then show ?case by simp
next
  case (Suc n)
  then have n: "n < length buf" by simp
  then have "(map f (take n buf) @ drop n buf)[n := f ((map f (take n buf) @ drop n buf) ! n)]
             = map f (take n buf) @ (f (buf ! n) # drop (Suc n) buf)"
    by (simp add: list_update_append nth_append upd_conv_take_nth_drop)
  also have "\<dots> = map f (take (Suc n) buf) @ drop (Suc n) buf"
    using n by (simp add: take_Suc_conv_app_nth)
  finally show ?case using Suc by simp
qed

lemma ApplyVolumeInPlace_map:
  "ApplyVolumeInPlace B buf vol = map (ApplyVolumeInPlace_body B vol) buf"
  by (simp add: ApplyVolumeInPlace_def fold_update_map)


lemma volume_high_product:
  "- (2 ^ 30) \<le> (sint (v :: s32) div 2 ^ 16) * sint (x :: s16) \<and>
   (sint v div 2 ^ 16) * sint x \<le> 2 ^ 30"
proof -
  let ?a = "sint v div 2 ^ 16"
  have lo: "- (2 ^ 15) \<le> ?a" using sint_range32 [of v] by simp linarith
  have hi: "?a < 2 ^ 15" using sint_range32 [of v] by simp linarith
  from lo hi sint_range16 [of x] show ?thesis
    by (intro prod_bound) simp_all
qed

lemma sint_AddBuffersWithVolumeRamp_body:
  "sint (AddBuffersWithVolumeRamp_body v x) = ((sint v div 2 ^ 16) * sint x) div 2 ^ 16"
proof -
  let ?a = "sint v div 2 ^ 16"
  have "- (2 ^ 30) \<le> ?a * sint x \<and> ?a * sint x \<le> 2 ^ 30"
    by (rule volume_high_product)
  then have "- (2 ^ 31) \<le> ?a * sint x \<and> ?a * sint x < 2 ^ 31" by simp
  then have "signed_take_bit 31 (?a * sint x) = ?a * sint x"
    by (simp only: signed_take_bit_int_eq_self_iff)
  then show ?thesis
    by (simp add: AddBuffersWithVolumeRamp_body_def sint_signed_drop_bit_eq sint_word_mult
        sint_scast_16_32 drop_bit_eq_div)
qed

lemma AddBuffersWithVolumeRamp_body_range:
  "- 16384 \<le> sint (AddBuffersWithVolumeRamp_body v x) \<and>
   sint (AddBuffersWithVolumeRamp_body v x) \<le> 16384"
proof -
  let ?a = "sint v div 2 ^ 16"
  have "- (2 ^ 30) \<le> ?a * sint x \<and> ?a * sint x \<le> 2 ^ 30"
    by (rule volume_high_product)
  then have "- 16384 \<le> (?a * sint x) div 2 ^ 16 \<and> (?a * sint x) div 2 ^ 16 \<le> 16384"
    by simp linarith
  then show ?thesis by (simp only: sint_AddBuffersWithVolumeRamp_body)
qed

lemma sint_accumulate:
  "sint (ucast ((scast (d :: s16) :: s32) + c) :: s16) = signed_take_bit 15 (sint d + sint c)"
proof -
  have "sint (ucast ((scast d :: s32) + c) :: s16) = signed_take_bit 15 (sint ((scast d :: s32) + c))"
    by (rule sint_ucast_32_16)
  also have "\<dots> = signed_take_bit 15 (sint d + sint c)"
    by (simp add: sint_word_add sint_scast_16_32)
  finally show ?thesis .
qed

lemma sint_ramp_volume:
  "sint (vol + of_nat i * step :: s32) = signed_take_bit 31 (sint vol + int i * sint step)"
proof -
  have "vol + of_nat i * step = word_of_int (sint vol + int i * sint step)" by simp
  then show ?thesis by (simp only: sint_sbintrunc') simp
qed

lemma ramp_fold:
  "n \<le> length dst \<Longrightarrow>
     fold (\<lambda>i (d, v). (d[i := f v (d ! i) (src ! i)], v + step)) [0..<n] (dst, vol) =
       (map (\<lambda>i. f (vol + of_nat i * step) (dst ! i) (src ! i)) [0..<n] @ drop n dst,
        vol + of_nat n * step)"
  for vol step :: s32
proof (induction n)
  case 0
  then show ?case by simp
next
  case (Suc n)
  let ?new = "\<lambda>i. f (vol + of_nat i * step) (dst ! i) (src ! i)"
  let ?xs = "map ?new [0..<n]"
  from Suc have n: "n < length dst" by simp
  have len: "length ?xs = n" by simp
  have at: "(?xs @ drop n dst) ! n = dst ! n"
    using n by (simp add: nth_append)
  have "(?xs @ drop n dst)[n := ?new n] = ?xs @ (drop n dst)[0 := ?new n]"
    by (simp add: list_update_append)
  also have "\<dots> = ?xs @ (?new n # drop (Suc n) dst)"
    using n by (simp add: Cons_nth_drop_Suc [symmetric])
  also have "\<dots> = map ?new [0..<Suc n] @ drop (Suc n) dst" by simp
  finally have upd: "(?xs @ drop n dst)[n := ?new n] = map ?new [0..<Suc n] @ drop (Suc n) dst" .
  have "vol + of_nat n * step + step = vol + of_nat (Suc n) * step"
    by (simp add: algebra_simps)
  with Suc n at upd show ?case by simp
qed

section \<open>The volume ramp without overflow\<close>

lemma sint_add_fits:
  "fits_s32 (sint a + sint b) \<Longrightarrow> sint (a + b :: s32) = sint a + sint b"
proof -
  assume "fits_s32 (sint a + sint b)"
  then have "- (2 ^ 31) \<le> sint a + sint b \<and> sint a + sint b < 2 ^ 31"
    by (simp add: fits_s32_def)
  then have "signed_take_bit 31 (sint a + sint b) = sint a + sint b"
    by (simp only: signed_take_bit_int_eq_self_iff)
  then show ?thesis by (simp add: sint_word_add)
qed

lemma fits_s32_sint: "fits_s32 (sint (v :: s32))"
  using sint_range32 [of v] by (simp add: fits_s32_def)

lemma fits_s32_between:
  assumes "fits_s32 (sint vol + int N * sint step)" and "n \<le> N"
  shows "fits_s32 (sint (vol :: s32) + int n * sint (step :: s32))"
proof (cases "0 \<le> sint step")
  case True
  then have "int n * sint step \<le> int N * sint step" and "0 \<le> int n * sint step"
    using assms(2) by (simp_all add: mult_right_mono)
  with assms(1) fits_s32_sint [of vol] show ?thesis
    unfolding fits_s32_def by linarith
next
  case False
  then have "int N * sint step \<le> int n * sint step" and "int n * sint step \<le> 0"
    using assms(2) by (simp_all add: mult_right_mono_neg mult_nonneg_nonpos)
  with assms(1) fits_s32_sint [of vol] show ?thesis
    unfolding fits_s32_def by linarith
qed

lemma sint_ramp_volume_fits:
  assumes "fits_s32 (sint vol + int n * sint step)"
  shows "sint (vol + of_nat n * step :: s32) = sint vol + int n * sint step"
proof -
  from assms have "- (2 ^ 31) \<le> sint vol + int n * sint step \<and> sint vol + int n * sint step < 2 ^ 31"
    by (simp add: fits_s32_def)
  then have "signed_take_bit 31 (sint vol + int n * sint step) = sint vol + int n * sint step"
    by (simp only: signed_take_bit_int_eq_self_iff)
  then show ?thesis by (simp only: sint_ramp_volume)
qed

lemma AddBuffersWithVolumeRamp_loop_fold:
  assumes "\<And>n. 1 \<le> n \<Longrightarrow> n \<le> length js \<Longrightarrow> fits_s32 (sint vol + int n * sint step)"
  shows "AddBuffersWithVolumeRamp_loop js dst src vol step =
           Inr (fold (\<lambda>i (d, v).
                  (d[i := ucast ((scast (d ! i) :: s32) + AddBuffersWithVolumeRamp_body v (src ! i))],
                   v + step)) js (dst, vol))"
  using assms
proof (induction js arbitrary: dst vol)
  case Nil
  then show ?case by simp
next
  case (Cons j js)
  have one: "fits_s32 (sint vol + sint step)"
    using Cons.prems [of 1] by simp
  then have a: "add_s32 vol step = Inr (vol + step)" by (simp add: add_s32_def)
  have s: "sint (vol + step) = sint vol + sint step" using one by (rule sint_add_fits)
  have "fits_s32 (sint (vol + step) + int n * sint step)" if "1 \<le> n" "n \<le> length js" for n
  proof -
    have "fits_s32 (sint vol + int (Suc n) * sint step)"
      using that by (intro Cons.prems) simp_all
    moreover have "sint vol + int (Suc n) * sint step = sint vol + sint step + int n * sint step"
      by (simp add: algebra_simps)
    ultimately show ?thesis by (simp only: s)
  qed
  from Cons.IH [OF this] show ?case by (simp add: a)
qed

lemma AddBuffersWithVolumeRamp_loop_overflow:
  "\<not> fits_s32 (sint vol + int (length js) * sint step) \<Longrightarrow>
     AddBuffersWithVolumeRamp_loop js dst src vol step = Inl SignedOverflow"
proof (induction js arbitrary: dst vol)
  case Nil
  then show ?case using fits_s32_sint [of vol] by simp
next
  case (Cons j js)
  show ?case
  proof (cases "fits_s32 (sint vol + sint step)")
    case False
    then show ?thesis by (simp add: add_s32_def)
  next
    case True
    then have a: "add_s32 vol step = Inr (vol + step)" by (simp add: add_s32_def)
    have s: "sint (vol + step) = sint vol + sint step" using True by (rule sint_add_fits)
    have "sint vol + int (length (j # js)) * sint step =
          sint vol + sint step + int (length js) * sint step"
      by (simp add: algebra_simps)
    with Cons.prems have "\<not> fits_s32 (sint vol + sint step + int (length js) * sint step)"
      by metis
    then have "\<not> fits_s32 (sint (vol + step) + int (length js) * sint step)"
      unfolding s .
    from Cons.IH [OF this] show ?thesis by (simp add: a)
  qed
qed

lemma AddBuffersWithVolumeRamp_overflow:
  "\<not> fits_s32 (sint vol + int (length dst) * sint step) \<Longrightarrow>
     AddBuffersWithVolumeRamp dst src vol step = Inl SignedOverflow"
proof -
  assume o: "\<not> fits_s32 (sint vol + int (length dst) * sint step)"
  have "\<not> (vol = 0 \<and> step = 0)"
  proof
    assume "vol = 0 \<and> step = 0"
    with o show False by (simp add: fits_s32_def)
  qed
  moreover have "AddBuffersWithVolumeRamp_loop [0..<length dst] dst src vol step = Inl SignedOverflow"
    using o by (intro AddBuffersWithVolumeRamp_loop_overflow) simp
  ultimately show ?thesis by (simp add: AddBuffersWithVolumeRamp_def)
qed

lemma AddBuffersWithVolumeRamp_ramp_eq:
  assumes "\<not> (vol = 0 \<and> step = 0)"
    and "fits_s32 (sint vol + int (length dst) * sint step)"
  shows "AddBuffersWithVolumeRamp dst src vol step =
    Inr (map (\<lambda>i. ucast ((scast (dst ! i) :: s32) +
                  AddBuffersWithVolumeRamp_body (vol + of_nat i * step) (src ! i)))
           [0..<length dst],
         vol + of_nat (length dst) * step)"
proof -
  have "AddBuffersWithVolumeRamp dst src vol step =
          AddBuffersWithVolumeRamp_loop [0..<length dst] dst src vol step"
    using assms(1) by (simp only: AddBuffersWithVolumeRamp_def if_False)
  also have "\<dots> = Inr (fold (\<lambda>i (d, v).
                  (d[i := ucast ((scast (d ! i) :: s32) + AddBuffersWithVolumeRamp_body v (src ! i))],
                   v + step))
             [0..<length dst] (dst, vol))"
    by (rule AddBuffersWithVolumeRamp_loop_fold) (use assms(2) in \<open>simp add: fits_s32_between\<close>)
  also have "\<dots> = Inr (map (\<lambda>i. ucast ((scast (dst ! i) :: s32) +
                  AddBuffersWithVolumeRamp_body (vol + of_nat i * step) (src ! i)))
       [0..<length dst] @ drop (length dst) dst,
     vol + of_nat (length dst) * step)"
    by (simp only: ramp_fold [where f = "\<lambda>v d x. ucast ((scast d :: s32) + AddBuffersWithVolumeRamp_body v x)", OF order_refl])
  finally show ?thesis by simp
qed

lemma AddBuffersWithVolumeRamp_sample:
  assumes "fits_s32 (sint vol + int (length dst) * sint step)" and "i < length dst"
  shows "\<exists>d v. AddBuffersWithVolumeRamp dst src vol step = Inr (d, v) \<and> length d = length dst \<and>
           sint (d ! i) = signed_take_bit 15
             (sint (dst ! i) + ((sint vol + int i * sint step) div 2 ^ 16 * sint (src ! i)) div 2 ^ 16)"
proof (cases "vol = 0 \<and> step = 0")
  case True
  have "signed_take_bit 15 (sint (dst ! i)) = sint (dst ! i)"
    using sint_range16 [of "dst ! i"] by (simp only: signed_take_bit_int_eq_self_iff)
  with True show ?thesis by (simp add: AddBuffersWithVolumeRamp_def)
next
  case False
  have "fits_s32 (sint vol + int i * sint step)"
    using assms by (intro fits_s32_between [of vol "length dst" step i]) simp_all
  then have v: "sint (vol + of_nat i * step) = sint vol + int i * sint step"
    by (rule sint_ramp_volume_fits)
  show ?thesis
    using assms(2)
    by (simp add: AddBuffersWithVolumeRamp_ramp_eq [OF False assms(1)] sint_accumulate
        sint_AddBuffersWithVolumeRamp_body v)
qed


lemma AddBuffersWithVolumeRamp_body_small:
  assumes "0 \<le> sint v" and "sint v < 2 ^ 16"
  shows "AddBuffersWithVolumeRamp_body v x = 0"
proof -
  from assms have "sint v div 2 ^ 16 = 0" by simp
  then have "sint (AddBuffersWithVolumeRamp_body v x) = 0"
    by (simp add: sint_AddBuffersWithVolumeRamp_body)
  then show ?thesis by (simp only: signed_eq_0_iff)
qed

text \<open>
  The input of three samples with the largest volume and step 1: the first
  \<open>vol += step\<close> overflows.
\<close>

lemma AddBuffersWithVolumeRamp_overflow_example:
  "AddBuffersWithVolumeRamp [0, 0, 0] [0x7fff, 0x7fff, 0x7fff] 0x7fffffff 1 = Inl SignedOverflow"
  by (rule AddBuffersWithVolumeRamp_overflow) (simp add: fits_s32_def)

section \<open>Sample loading without a loop\<close>

lemma DownloadSamples_no_loop:
  "\<not> loop_enabled vpb \<Longrightarrow>
     fst (DownloadSamples decode n vpb) =
       map decode [current_offset vpb ..< min (current_offset vpb + n) (sample_count vpb)] @
       replicate (n - (sample_count vpb - current_offset vpb)) 0"
proof (induction n arbitrary: vpb)
  case 0
  then show ?case by simp
next
  case (Suc n)
  show ?case
  proof (cases "current_offset vpb < sample_count vpb")
    case True
    let ?v = "vpb\<lparr>current_offset := current_offset vpb + 1\<rparr>"
    from Suc.prems have "\<not> loop_enabled ?v" by simp
    from Suc.IH [OF this]
    have ih: "fst (DownloadSamples decode n ?v) =
                map decode [Suc (current_offset vpb) ..< min (Suc (current_offset vpb) + n) (sample_count vpb)] @
                replicate (n - (sample_count vpb - Suc (current_offset vpb))) 0"
      by simp
    from True have "[current_offset vpb ..< min (current_offset vpb + Suc n) (sample_count vpb)] =
        current_offset vpb # [Suc (current_offset vpb) ..< min (Suc (current_offset vpb) + n) (sample_count vpb)]"
      by (simp add: upt_conv_Cons)
    moreover from True have "Suc n - (sample_count vpb - current_offset vpb) =
        n - (sample_count vpb - Suc (current_offset vpb))"
      by simp
    ultimately show ?thesis using True ih by (simp add: split_beta)
  next
    case False
    then have "[current_offset vpb ..< min (current_offset vpb + Suc n) (sample_count vpb)] = []"
      and "[current_offset vpb ..< min (current_offset vpb + n) (sample_count vpb)] = []"
      and "sample_count vpb - current_offset vpb = 0"
      by simp_all
    with False Suc.prems Suc.IH [OF Suc.prems] show ?thesis
      by (simp add: split_beta)
  qed
qed

lemma DownloadSamples_length: "length (fst (DownloadSamples decode n vpb)) = n"
  by (induction n arbitrary: vpb) (simp_all add: split_beta)

lemma DownloadSamples_no_loop_offset:
  "\<not> loop_enabled vpb \<Longrightarrow>
     current_offset (snd (DownloadSamples decode n vpb)) =
       (if current_offset vpb \<le> sample_count vpb
        then min (current_offset vpb + n) (sample_count vpb) else current_offset vpb)"
proof (induction n arbitrary: vpb)
  case 0
  then show ?case by simp
next
  case (Suc n)
  show ?case
  proof (cases "current_offset vpb < sample_count vpb")
    case True
    let ?v = "vpb\<lparr>current_offset := current_offset vpb + 1\<rparr>"
    from Suc.prems have "\<not> loop_enabled ?v" by simp
    from Suc.IH [OF this] True show ?thesis by (simp add: split_beta)
  next
    case False
    with Suc.prems Suc.IH [OF Suc.prems] show ?thesis by (simp add: split_beta)
  qed
qed

section \<open>Mail handling and the queue\<close>

lemma queue_holds_cong:
  "m_cmd_buffer s' = m_cmd_buffer s \<Longrightarrow> m_read_offset s' = m_read_offset s \<Longrightarrow>
   m_write_offset s' = m_write_offset s \<Longrightarrow> queue_holds s' xs = queue_holds s xs"
  by (simp add: queue_holds_def cursors_ok_def)

lemma queue_holds_HandleMail_WAITING_command:
  assumes "queue_holds s xs" and "length xs < 63"
  shows "queue_holds (HandleMail_WAITING_command n mail s) (xs @ [mail])"
proof -
  have "queue_holds (HandleMail_WAITING_command n mail s) (xs @ [mail]) =
        queue_holds (Write32 mail s) (xs @ [mail])"
    by (rule queue_holds_cong) (simp_all add: HandleMail_WAITING_command_def SetMailState_def)
  with queue_holds_Write32 [OF assms] show ?thesis by simp
qed

lemma HandleMail_WRITING_CMD_opcode:
  "cmd_params mail = Some n \<Longrightarrow> HandleMail_WRITING_CMD cmd_params mail s = SetMailState HALTED s"
  by (simp add: HandleMail_WRITING_CMD_def)

lemma queue_holds_HandleMail_WRITING_CMD:
  assumes "cmd_params mail = None" and "queue_holds s xs" and "length xs < 63"
  shows "queue_holds (HandleMail_WRITING_CMD cmd_params mail s) (xs @ [mail])"
proof -
  have "queue_holds (HandleMail_WRITING_CMD cmd_params mail s) (xs @ [mail]) =
        queue_holds (Write32 mail s) (xs @ [mail])"
    using assms(1)
    by (intro queue_holds_cong)
      (simp_all add: HandleMail_WRITING_CMD_def SetMailState_def Let_def)
  with queue_holds_Write32 [OF assms(2,3)] show ?thesis by simp
qed

lemma HandleMail_WAITING_command_fields:
  "m_mail_current_state (HandleMail_WAITING_command n mail s) = WRITING_CMD"
  "m_mail_expected_cmd_mails (HandleMail_WAITING_command n mail s) = n"
  "m_pending_commands_count (HandleMail_WAITING_command n mail s) = m_pending_commands_count s"
  by (simp_all add: HandleMail_WAITING_command_def SetMailState_def Write32_def)

lemma HandleMail_WRITING_CMD_fields:
  assumes "cmd_params mail = None"
  shows "m_mail_expected_cmd_mails (HandleMail_WRITING_CMD cmd_params mail s) =
           m_mail_expected_cmd_mails s - 1"
    and "m_mail_current_state (HandleMail_WRITING_CMD cmd_params mail s) =
           (if m_mail_expected_cmd_mails s - 1 = 0 then WAITING else m_mail_current_state s)"
    and "m_pending_commands_count (HandleMail_WRITING_CMD cmd_params mail s) =
           (if m_mail_expected_cmd_mails s - 1 = 0 then m_pending_commands_count s + 1
            else m_pending_commands_count s)"
  using assms
  by (simp_all add: HandleMail_WRITING_CMD_def SetMailState_def Write32_def Let_def)

text \<open>
  The regular course: three parameter mails after the opcode complete the command.
\<close>

lemma WRITING_CMD_three_parameters:
  assumes "cursors_ok s" and "m_read_offset s = m_write_offset s"
    and "cmd_params p1 = None" and "cmd_params p2 = None" and "cmd_params p3 = None"
  shows "m_mail_current_state
           (HandleMail_WRITING_CMD cmd_params p3 (HandleMail_WRITING_CMD cmd_params p2
              (HandleMail_WRITING_CMD cmd_params p1 (HandleMail_WAITING_command 3 opcode s)))) = WAITING \<and>
         m_pending_commands_count
           (HandleMail_WRITING_CMD cmd_params p3 (HandleMail_WRITING_CMD cmd_params p2
              (HandleMail_WRITING_CMD cmd_params p1 (HandleMail_WAITING_command 3 opcode s)))) =
           m_pending_commands_count s + 1 \<and>
         fst (Read32_times 4
           (HandleMail_WRITING_CMD cmd_params p3 (HandleMail_WRITING_CMD cmd_params p2
              (HandleMail_WRITING_CMD cmd_params p1 (HandleMail_WAITING_command 3 opcode s))))) =
           [opcode, p1, p2, p3]"
proof -
  let ?s1 = "HandleMail_WAITING_command 3 opcode s"
  let ?s2 = "HandleMail_WRITING_CMD cmd_params p1 ?s1"
  let ?s3 = "HandleMail_WRITING_CMD cmd_params p2 ?s2"
  let ?s4 = "HandleMail_WRITING_CMD cmd_params p3 ?s3"
  have q0: "queue_holds s []" using assms(1,2) by (rule queue_holds_empty)
  have q1: "queue_holds ?s1 [opcode]"
    using queue_holds_HandleMail_WAITING_command [OF q0, of 3 opcode] by simp
  have q2: "queue_holds ?s2 [opcode, p1]"
    using queue_holds_HandleMail_WRITING_CMD [of cmd_params p1, OF assms(3) q1] by simp
  have q3: "queue_holds ?s3 [opcode, p1, p2]"
    using queue_holds_HandleMail_WRITING_CMD [of cmd_params p2, OF assms(4) q2] by simp
  have q4: "queue_holds ?s4 [opcode, p1, p2, p3]"
    using queue_holds_HandleMail_WRITING_CMD [of cmd_params p3, OF assms(5) q3] by simp
  have len: "length [opcode, p1, p2, p3] = 4" by simp
  have r: "fst (Read32_times 4 ?s4) = [opcode, p1, p2, p3]"
    using Read32_times_queue [OF q4] unfolding len by simp
  note f = HandleMail_WRITING_CMD_fields [of cmd_params p1, OF assms(3)]
    HandleMail_WRITING_CMD_fields [of cmd_params p2, OF assms(4)]
    HandleMail_WRITING_CMD_fields [of cmd_params p3, OF assms(5)]
    HandleMail_WAITING_command_fields
  have st4: "m_mail_current_state ?s4 = WAITING" by (simp add: f)
  have p4: "m_pending_commands_count ?s4 = m_pending_commands_count s + 1" by (simp add: f)
  from st4 p4 r show ?thesis by simp
qed

section \<open>The latency after underflows\<close>

lemma BUFFER_SIZE_value: "BUFFER_SIZE = 2048"
  by (simp add: BUFFER_SIZE_def BUFFER_SAMPLES_def CHANNEL_COUNT_def)

lemma UnderflowCallback_tlength:
  "tlength (m_pa_ba (UnderflowCallback p)) = tlength (m_pa_ba p) + 2048"
  by (simp add: UnderflowCallback_def Let_def BUFFER_SIZE_value)

lemma UnderflowCallback_funpow_tlength:
  "tlength (m_pa_ba ((UnderflowCallback ^^ n) p)) = tlength (m_pa_ba p) + of_nat n * 2048"
  by (induction n) (simp_all add: UnderflowCallback_tlength algebra_simps)

section \<open>Claims about the command buffer\<close>

text \<open>
  Claim C1, as the queue implements it. Starting from a command buffer whose read and write
  cursors are equal, writing at most 63 words with \<open>Write32\<close> and then calling
  \<open>Read32\<close> exactly as many times returns the written words in the order they were
  written; one more \<open>Read32\<close> returns 0 and changes nothing but the log: the buffer
  and both cursors stay as they are. The bound 63 is the capacity 64 of the circular
  buffer minus one: \<open>Write32\<close> has no check for a full buffer.
\<close>

theorem Write32_Read32_fifo:
  assumes "cursors_ok s" and "m_read_offset s = m_write_offset s" and "length ws \<le> 63"
  shows "fst (Read32_times (length ws) (Write32_all ws s)) = ws \<and>
         (let s' = snd (Read32_times (length ws) (Write32_all ws s))
          in Read32 s' = (0, s'\<lparr>log := log s' @ [(LERROR, DSPHLE, ''Reading too many command params'', [])]\<rparr>))"
proof -
  have "queue_holds s []" using assms(1,2) by (rule queue_holds_empty)
  then have "queue_holds (Write32_all ws s) ([] @ ws)"
    using assms(3) by (intro queue_holds_Write32_all) simp_all
  then have q: "queue_holds (Write32_all ws s) ws" by simp
  from Read32_times_queue [OF q]
  have r: "fst (Read32_times (length ws) (Write32_all ws s)) = ws"
    and e: "queue_holds (snd (Read32_times (length ws) (Write32_all ws s))) []"
    by simp_all
  from e have "m_read_offset (snd (Read32_times (length ws) (Write32_all ws s))) =
               m_write_offset (snd (Read32_times (length ws) (Write32_all ws s)))"
    by (rule queue_holds_Nil_cursors)
  then show ?thesis using r by (simp add: Let_def Read32_empty)
qed

text \<open>
  An instance of the theorem for C1: three words written into the initial buffer.
\<close>

theorem Write32_Read32_fifo_witness:
  "cursors_ok ZeldaUCode_init \<and>
   m_read_offset ZeldaUCode_init = m_write_offset ZeldaUCode_init \<and>
   length [7, 8, 9 :: u32] \<le> 63 \<and>
   fst (Read32_times (length [7, 8, 9 :: u32]) (Write32_all [7, 8, 9] ZeldaUCode_init)) = [7, 8, 9]"
proof -
  have h1: "cursors_ok ZeldaUCode_init" by (simp add: cursors_ok_def ZeldaUCode_init_def)
  have h2: "m_read_offset ZeldaUCode_init = m_write_offset ZeldaUCode_init"
    by (simp add: ZeldaUCode_init_def)
  have h3: "length [7, 8, 9 :: u32] \<le> 63" by simp
  from Write32_Read32_fifo [OF h1 h2 h3] h1 h2 h3 show ?thesis by blast
qed

text \<open>
  Claim C1 as stated, for every number of words, fails at 64 words: the write cursor has
  wrapped around to the read cursor, the buffer looks empty, and the first \<open>Read32\<close>
  returns 0 instead of the first word written.
\<close>

theorem Write32_Read32_fifo_counterexample:
  "cursors_ok ZeldaUCode_init \<and>
   m_read_offset ZeldaUCode_init = m_write_offset ZeldaUCode_init \<and>
   fst (Read32_times (length (replicate 64 (1::u32))) (Write32_all (replicate 64 1) ZeldaUCode_init))
     \<noteq> replicate 64 1"
proof -
  let ?s = "Write32_all (replicate 64 1) ZeldaUCode_init"
  have "unat (m_write_offset ZeldaUCode_init) < 64" by (simp add: ZeldaUCode_init_def)
  from Write32_all_offsets [OF this, of "replicate 64 1"]
  have "m_read_offset ?s = 0" and "unat (m_write_offset ?s) = 0"
    by (simp_all add: ZeldaUCode_init_def)
  then have "m_read_offset ?s = m_write_offset ?s" by (simp add: unat_eq_zero)
  then have r: "fst (Read32 ?s) = 0" by (simp add: Read32_def)
  have "hd (fst (Read32_times (Suc 63) ?s)) = 0"
    unfolding Read32_times_hd using r by simp
  moreover have "hd (replicate 64 (1::u32)) = 1" by (simp add: hd_replicate)
  ultimately have "fst (Read32_times (Suc 63) ?s) \<noteq> replicate 64 1" by auto
  then show ?thesis by (simp add: cursors_ok_def ZeldaUCode_init_def)
qed

text \<open>
  Claim C2. A call of \<open>Read32\<close> when the command queue is empty (the two cursors
  are equal, the test the function makes) appends one error line to the log, returns 0,
  and leaves the buffer contents, both cursors and the mail state as they were: the state
  machine is not halted.
\<close>

theorem Read32_underrun:
  assumes "m_read_offset s = m_write_offset s"
  shows "fst (Read32 s) = 0 \<and>
         snd (Read32 s) = s\<lparr>log := log s @ [(LERROR, DSPHLE, ''Reading too many command params'', [])]\<rparr> \<and>
         m_cmd_buffer (snd (Read32 s)) = m_cmd_buffer s \<and>
         m_read_offset (snd (Read32 s)) = m_read_offset s \<and>
         m_write_offset (snd (Read32 s)) = m_write_offset s \<and>
         m_mail_current_state (snd (Read32 s)) = m_mail_current_state s"
  using assms by (simp add: Read32_def)

text \<open>
  An instance of the theorem for C2: the freshly constructed object.
\<close>

theorem Read32_underrun_witness:
  "m_read_offset ZeldaUCode_init = m_write_offset ZeldaUCode_init \<and>
   fst (Read32 ZeldaUCode_init) = 0 \<and>
   log (snd (Read32 ZeldaUCode_init)) = [(LERROR, DSPHLE, ''Reading too many command params'', [])] \<and>
   m_mail_current_state (snd (Read32 ZeldaUCode_init)) = WAITING"
proof -
  have h: "m_read_offset ZeldaUCode_init = m_write_offset ZeldaUCode_init"
    by (simp add: ZeldaUCode_init_def)
  from Read32_underrun [OF h] h show ?thesis by (simp add: ZeldaUCode_init_def)
qed

section \<open>Claims about the volume utilities\<close>

text \<open>
  Claim C3. With current volume zero and volume step zero, \<open>AddBuffersWithVolumeRamp\<close>
  returns the destination bus unchanged, whatever the source samples are, and returns the
  volume zero.
\<close>

theorem AddBuffersWithVolumeRamp_zero_noop:
  "AddBuffersWithVolumeRamp dst src 0 0 = Inr (dst, 0)"
  by (simp add: AddBuffersWithVolumeRamp_def)

text \<open>
  Claim C4, as the function computes it. When volume and step are not both zero and the
  running volume \<open>vol + i * step\<close> stays within the range of \<open>s32\<close> up to
  \<open>i = 80\<close>, \<open>AddBuffersWithVolumeRamp\<close> on 80-sample buffers returns normally, and
  destination sample \<open>i\<close> has received the high 16 bits of the running volume (the
  volume shifted right arithmetically by 16 bits) times source sample \<open>i\<close>, shifted
  right arithmetically by 16 bits. The running volume grows by the signed step at every
  sample and is not clamped; the sum is stored in the 16-bit destination sample
  (\<open>signed_take_bit 15\<close>); the volume returned is \<open>vol + 80 * step\<close>. The theorem
  reads all values as signed integers, \<open>div 2 ^ 16\<close> being the arithmetic shift. What
  happens when the running volume leaves the range of \<open>s32\<close> is not stated.
\<close>

theorem AddBuffersWithVolumeRamp_ramp:
  assumes "length dst = 80" and "length src = 80" and "\<not> (vol = 0 \<and> step = 0)"
    and "fits_s32 (sint vol + 80 * sint step)"
  shows "\<exists>d v. AddBuffersWithVolumeRamp dst src vol step = Inr (d, v) \<and>
           map sint d =
             map (\<lambda>i. signed_take_bit 15
                         (sint (dst ! i) +
                          ((sint vol + int i * sint step) div 2 ^ 16 * sint (src ! i)) div 2 ^ 16))
                 [0..<80] \<and>
           sint v = sint vol + 80 * sint step"
proof -
  have f: "fits_s32 (sint vol + int (length dst) * sint step)"
    using assms(1,4) by simp
  let ?d = "map (\<lambda>i. ucast ((scast (dst ! i) :: s32) +
                  AddBuffersWithVolumeRamp_body (vol + of_nat i * step) (src ! i)) :: s16)
       [0..<80]"
  have eq: "AddBuffersWithVolumeRamp dst src vol step = Inr (?d, vol + 80 * step)"
    using AddBuffersWithVolumeRamp_ramp_eq [OF assms(3) f, of src] assms(1) by simp
  have v: "sint (vol + of_nat i * step) = sint vol + int i * sint step" if "i < 81" for i
  proof -
    have "fits_s32 (sint vol + int i * sint step)"
      using f that assms(1) by (intro fits_s32_between [of vol "length dst" step i]) simp_all
    then show ?thesis by (rule sint_ramp_volume_fits)
  qed
  have "map sint ?d =
          map (\<lambda>i. signed_take_bit 15
                      (sint (dst ! i) +
                       ((sint vol + int i * sint step) div 2 ^ 16 * sint (src ! i)) div 2 ^ 16))
              [0..<80]"
    unfolding map_map
    by (rule map_cong) (simp_all add: sint_accumulate sint_AddBuffersWithVolumeRamp_body v)
  moreover have "sint (vol + 80 * step) = sint vol + 80 * sint step"
    using v [of 80] by simp
  ultimately show ?thesis using eq by simp
qed

text \<open>
  An instance of the theorem for C4: a volume ramping down from \<open>0x7fff0000\<close> in
  steps of \<open>0x10000\<close>.
\<close>

theorem AddBuffersWithVolumeRamp_ramp_witness:
  "length (replicate 80 (0::s16)) = 80 \<and> length (replicate 80 (0x4000::s16)) = 80 \<and>
   \<not> ((0x7fff0000::s32) = 0 \<and> (- 0x10000::s32) = 0) \<and>
   fits_s32 (sint (0x7fff0000::s32) + 80 * sint (- 0x10000::s32)) \<and>
   (case AddBuffersWithVolumeRamp (replicate 80 0) (replicate 80 0x4000) 0x7fff0000 (- 0x10000) of
      Inl ub \<Rightarrow> None | Inr (d, v) \<Rightarrow> Some (sint v)) = Some 2142175232"
proof -
  have h1: "length (replicate 80 (0::s16)) = 80" by simp
  have h2: "length (replicate 80 (0x4000::s16)) = 80" by simp
  have h3: "\<not> ((0x7fff0000::s32) = 0 \<and> (- 0x10000::s32) = 0)" by simp
  have h4: "fits_s32 (sint (0x7fff0000::s32) + 80 * sint (- 0x10000::s32))"
    by (simp add: fits_s32_def)
  from AddBuffersWithVolumeRamp_ramp [OF h1 h2 h3 h4] h1 h2 h3 h4 show ?thesis by auto
qed

text \<open>
  Claim C4 as stated adds the running volume times the source sample, shifted right. With
  volume \<open>0xFFFF\<close>, step 0 and all source samples \<open>-1\<close> that product is
  \<open>-65535\<close>, which is negative after an arithmetic right shift by any number of bits
  (\<open>-1\<close> for 16 and for 32 bits): every destination sample would decrease. The function
  leaves all 80 destination samples at 0, because it multiplies the sample by the high
  16 bits of the volume, which are 0.
\<close>

theorem AddBuffersWithVolumeRamp_ramp_counterexample:
  "AddBuffersWithVolumeRamp (replicate 80 0) (replicate 80 (- 1)) 0xFFFF 0 =
     Inr (replicate 80 0, 0xFFFF) \<and>
   (sint (0xFFFF::s32) * sint (- 1::s16)) div 2 ^ 16 = - 1 \<and>
   (sint (0xFFFF::s32) * sint (- 1::s16)) div 2 ^ 32 = - 1"
proof -
  have b: "AddBuffersWithVolumeRamp_body 0xFFFF x = 0" for x
    by (rule AddBuffersWithVolumeRamp_body_small) simp_all
  have "map (\<lambda>i. ucast ((scast (replicate 80 (0::s16) ! i) :: s32) +
                  AddBuffersWithVolumeRamp_body (0xFFFF + of_nat i * 0) (replicate 80 (- 1) ! i)))
          [0..<80] = map (\<lambda>i. 0 :: s16) [0..<80]"
    by (rule map_cong) (simp_all add: b)
  also have "\<dots> = replicate 80 0" by (simp add: map_replicate_const)
  finally have m: "map (\<lambda>i. ucast ((scast (replicate 80 (0::s16) ! i) :: s32) +
                  AddBuffersWithVolumeRamp_body (0xFFFF + of_nat i * 0) (replicate 80 (- 1) ! i)))
          [0..<80] = replicate 80 (0::s16)" .
  have "AddBuffersWithVolumeRamp (replicate 80 0) (replicate 80 (- 1)) 0xFFFF 0 =
          Inr (replicate 80 0, 0xFFFF)"
    using AddBuffersWithVolumeRamp_ramp_eq [of "0xFFFF" 0 "replicate 80 0" "replicate 80 (- 1)"] m
    by (simp add: fits_s32_def)
  then show ?thesis by simp
qed

text \<open>
  Claim C5, as the function computes it. When the running volume stays within the range
  of \<open>s32\<close>, the contribution added to destination sample \<open>i\<close> is the high 16 bits of
  the running volume times source sample \<open>i\<close>, shifted right arithmetically by 16
  bits. It always lies in \<open>[-16384, 16384]\<close>, inside the 16-bit signed range, so that
  clamping it to \<open>[-32768, 32767]\<close> leaves it as it is; the function applies no clamp,
  neither to the contribution nor to the running volume, and stores the sum of destination
  sample and contribution in the 16-bit destination sample (\<open>signed_take_bit 15\<close>).
\<close>

theorem AddBuffersWithVolumeRamp_contribution_in_range:
  assumes "length src = length dst" and "i < length dst"
    and "fits_s32 (sint vol + int (length dst) * sint step)"
  shows "\<exists>d v. AddBuffersWithVolumeRamp dst src vol step = Inr (d, v) \<and>
           (let c = ((sint vol + int i * sint step) div 2 ^ 16 * sint (src ! i)) div 2 ^ 16
            in sint (d ! i) = signed_take_bit 15 (sint (dst ! i) + c) \<and>
               - 16384 \<le> c \<and> c \<le> 16384 \<and>
               max (- 32768) (min 32767 c) = c)"
proof -
  let ?c = "((sint vol + int i * sint step) div 2 ^ 16 * sint (src ! i)) div 2 ^ 16"
  have "fits_s32 (sint vol + int i * sint step)"
    using assms by (intro fits_s32_between [of vol "length dst" step i]) simp_all
  then have "sint (vol + of_nat i * step) = sint vol + int i * sint step"
    by (rule sint_ramp_volume_fits)
  then have "sint (AddBuffersWithVolumeRamp_body (vol + of_nat i * step) (src ! i)) = ?c"
    by (simp add: sint_AddBuffersWithVolumeRamp_body)
  with AddBuffersWithVolumeRamp_body_range [of "vol + of_nat i * step" "src ! i"]
  have r: "- 16384 \<le> ?c \<and> ?c \<le> 16384" by simp
  then have m: "max (- 32768) (min 32767 ?c) = ?c" by simp
  from AddBuffersWithVolumeRamp_sample [OF assms(3,2), of src] r m
  show ?thesis by (auto simp: Let_def)
qed

text \<open>
  An instance of the theorem for C5: the largest volume and the largest sample, added to
  the largest destination sample.
\<close>

theorem AddBuffersWithVolumeRamp_contribution_in_range_witness:
  "length [0x7fff::s16] = length [0x7fff::s16] \<and> (0::nat) < length [0x7fff::s16] \<and>
   fits_s32 (sint (0x7fff0000::s32) + int (length [0x7fff::s16]) * sint (0::s32)) \<and>
   (case AddBuffersWithVolumeRamp [0x7fff] [0x7fff] 0x7fff0000 0 of
      Inl ub \<Rightarrow> None | Inr (d, v) \<Rightarrow> Some (sint (d ! 0))) = Some (- 16386)"
proof -
  have h1: "length [0x7fff::s16] = length [0x7fff::s16]" by simp
  have h2: "(0::nat) < length [0x7fff::s16]" by simp
  have h3: "fits_s32 (sint (0x7fff0000::s32) + int (length [0x7fff::s16]) * sint (0::s32))"
    by (simp add: fits_s32_def)
  from AddBuffersWithVolumeRamp_contribution_in_range [OF h1 h2 h3] h1 h2 h3
  show ?thesis by (auto simp: Let_def)
qed

text \<open>
  Claim C5 as stated takes the contribution to be the volume times sample product after
  the right shift, clamped. With volume \<open>0x8000\<close>, step 0 and source sample \<open>-2\<close>
  that product is \<open>-65536\<close>, and its shift by 16 or by 32 bits, clamped, is \<open>-1\<close>:
  the destination sample 100 would become 99. The function leaves it at 100.
\<close>

theorem AddBuffersWithVolumeRamp_contribution_counterexample:
  "AddBuffersWithVolumeRamp [100] [- 2] 0x8000 0 = Inr ([100], 0x8000) \<and>
   max (- 32768) (min 32767 ((sint (0x8000::s32) * sint (- 2::s16)) div 2 ^ 16)) = - 1 \<and>
   max (- 32768) (min 32767 ((sint (0x8000::s32) * sint (- 2::s16)) div 2 ^ 32)) = - 1"
proof -
  have b: "AddBuffersWithVolumeRamp_body 0x8000 x = 0" for x
    by (rule AddBuffersWithVolumeRamp_body_small) simp_all
  have "AddBuffersWithVolumeRamp [100] [- 2] 0x8000 0 = Inr ([100], 0x8000)"
    using AddBuffersWithVolumeRamp_ramp_eq [of "0x8000" 0 "[100]" "[- 2]"]
    by (simp add: fits_s32_def b)
  then show ?thesis by simp
qed

text \<open>
  Claim C6. \<open>ApplyVolumeInPlace_1_15\<close> and \<open>ApplyVolumeInPlace_4_12\<close> replace every
  sample by the integer product of the signed sample and the unsigned 16-bit volume,
  shifted right arithmetically by 15 bits (1.15 format) or 12 bits (4.12 format), and
  clamped to \<open>[-32768, 32767]\<close>.
\<close>

theorem ApplyVolumeInPlace_fixed_point:
  "map sint (ApplyVolumeInPlace_1_15 buf vol) =
     map (\<lambda>x. max (- 32768) (min 32767 ((sint x * uint vol) div 2 ^ 15))) buf \<and>
   map sint (ApplyVolumeInPlace_4_12 buf vol) =
     map (\<lambda>x. max (- 32768) (min 32767 ((sint x * uint vol) div 2 ^ 12))) buf"
  by (simp add: ApplyVolumeInPlace_1_15_def ApplyVolumeInPlace_4_12_def ApplyVolumeInPlace_map
      sint_ApplyVolumeInPlace_body)

text \<open>
  Instances of the theorem for C6, one for each fixed-point format.
\<close>

theorem ApplyVolumeInPlace_fixed_point_witness:
  "map sint (ApplyVolumeInPlace_1_15 [0x4000, - 0x8000] 0xffff) = [32767, - 32768] \<and>
   map sint (ApplyVolumeInPlace_4_12 [0x4000, - 1] 0x0800) = [8192, - 1]"
  using ApplyVolumeInPlace_fixed_point [of "[0x4000, - 0x8000]" "0xffff"]
    ApplyVolumeInPlace_fixed_point [of "[0x4000, - 1]" "0x0800"]
  by simp

section \<open>Claims about sample loading\<close>

text \<open>
  Claim C7. For a voice with looping disabled whose read offset reaches the sample count
  before the requested number of samples is loaded, the loaded buffer consists of the
  remaining source samples followed by zero samples up to the requested length; no sample
  at or beyond the sample count is decoded, and the read offset stops at the sample count
  instead of wrapping to the loop point.
\<close>

theorem DownloadSamples_silence_after_end:
  assumes "\<not> loop_enabled vpb"
    and "current_offset vpb \<le> sample_count vpb"
    and "sample_count vpb - current_offset vpb < n"
  shows "fst (DownloadSamples decode n vpb) =
           map decode [current_offset vpb ..< sample_count vpb] @
           replicate (n - (sample_count vpb - current_offset vpb)) 0 \<and>
         current_offset (snd (DownloadSamples decode n vpb)) = sample_count vpb"
proof -
  from assms(2,3) have "min (current_offset vpb + n) (sample_count vpb) = sample_count vpb"
    by simp
  with DownloadSamples_no_loop [OF assms(1), of decode n]
    DownloadSamples_no_loop_offset [OF assms(1), of decode n] assms(2)
  show ?thesis by simp
qed

text \<open>
  An instance of the theorem for C7: five samples requested, two left.
\<close>

theorem DownloadSamples_silence_after_end_witness:
  "\<not> loop_enabled \<lparr>current_offset = 2, loop_point = 0, loop_enabled = False, sample_count = 4\<rparr> \<and>
   fst (DownloadSamples (\<lambda>k. of_nat (k + 1)) 5
          \<lparr>current_offset = 2, loop_point = 0, loop_enabled = False, sample_count = 4\<rparr>)
     = [3, 4, 0, 0, 0]"
proof -
  let ?v = "\<lparr>current_offset = 2, loop_point = 0, loop_enabled = False, sample_count = 4\<rparr>"
  have h1: "\<not> loop_enabled ?v" by simp
  have h2: "current_offset ?v \<le> sample_count ?v" by simp
  have h3: "sample_count ?v - current_offset ?v < 5" by simp
  have u: "[2..<4] = [2, 3::nat]" by (simp add: upt_rec)
  have r: "replicate 3 (0::s16) = [0, 0, 0]" by (simp add: numeral_3_eq_3)
  from DownloadSamples_silence_after_end [OF h1 h2 h3, of "\<lambda>k. of_nat (k + 1)"] h1
  show ?thesis by (simp add: u r)
qed

section \<open>Claims about mail handling\<close>

text \<open>
  Claim C8. A multi-word command whose opcode expects 3 parameter mails is started, and
  two parameter mails arrive: the state is still WRITING_CMD and one mail is expected.
  When the next mail carries a different opcode, the state becomes HALTED and nothing else
  changes: the mail is not appended to the command buffer as the missing parameter.
\<close>

theorem WRITING_CMD_opcode_mail_halts:
  assumes "cmd_params opcode = Some 3"
    and "cmd_params p1 = None" and "cmd_params p2 = None"
    and "cmd_params m = Some n" and "m \<noteq> opcode"
  shows "m_mail_current_state
           (HandleMail_WRITING_CMD cmd_params p2 (HandleMail_WRITING_CMD cmd_params p1
              (HandleMail_WAITING_command 3 opcode s))) = WRITING_CMD \<and>
         m_mail_expected_cmd_mails
           (HandleMail_WRITING_CMD cmd_params p2 (HandleMail_WRITING_CMD cmd_params p1
              (HandleMail_WAITING_command 3 opcode s))) = 1 \<and>
         HandleMail_WRITING_CMD cmd_params m
           (HandleMail_WRITING_CMD cmd_params p2 (HandleMail_WRITING_CMD cmd_params p1
              (HandleMail_WAITING_command 3 opcode s))) =
           SetMailState HALTED
             (HandleMail_WRITING_CMD cmd_params p2 (HandleMail_WRITING_CMD cmd_params p1
                (HandleMail_WAITING_command 3 opcode s))) \<and>
         m_mail_current_state
           (HandleMail_WRITING_CMD cmd_params m
              (HandleMail_WRITING_CMD cmd_params p2 (HandleMail_WRITING_CMD cmd_params p1
                 (HandleMail_WAITING_command 3 opcode s)))) = HALTED"
proof -
  let ?s1 = "HandleMail_WAITING_command 3 opcode s"
  let ?s2 = "HandleMail_WRITING_CMD cmd_params p1 ?s1"
  let ?s3 = "HandleMail_WRITING_CMD cmd_params p2 ?s2"
  note f = HandleMail_WRITING_CMD_fields [of cmd_params p1, OF assms(2)]
    HandleMail_WRITING_CMD_fields [of cmd_params p2, OF assms(3)]
    HandleMail_WAITING_command_fields
  have st3: "m_mail_current_state ?s3 = WRITING_CMD" by (simp add: f)
  have e3: "m_mail_expected_cmd_mails ?s3 = 1" by (simp add: f)
  have h: "HandleMail_WRITING_CMD cmd_params m ?s3 = SetMailState HALTED ?s3"
    using assms(4) by (simp add: HandleMail_WRITING_CMD_def)
  have "m_mail_current_state (SetMailState HALTED ?s3) = HALTED"
    by (simp add: SetMailState_def)
  with st3 e3 h show ?thesis by simp
qed

text \<open>
  An instance of the theorem for C8, on the example opcode table and the initial state.
\<close>

theorem WRITING_CMD_opcode_mail_halts_witness:
  "example_table 0x01000003 = Some 3 \<and> example_table 0x11 = None \<and> example_table 0x22 = None \<and>
   example_table 0x02000002 = Some 2 \<and> (0x02000002::u32) \<noteq> 0x01000003 \<and>
   m_mail_current_state
     (HandleMail_WRITING_CMD example_table 0x02000002
        (HandleMail_WRITING_CMD example_table 0x22 (HandleMail_WRITING_CMD example_table 0x11
           (HandleMail_WAITING_command 3 0x01000003 ZeldaUCode_init)))) = HALTED"
proof -
  have h1: "example_table 0x01000003 = Some 3" by (simp add: example_table_def)
  have h2: "example_table 0x11 = None" by (simp add: example_table_def)
  have h3: "example_table 0x22 = None" by (simp add: example_table_def)
  have h4: "example_table 0x02000002 = Some 2" by (simp add: example_table_def)
  have h5: "(0x02000002::u32) \<noteq> 0x01000003" by simp
  from WRITING_CMD_opcode_mail_halts
         [of example_table "0x01000003" "0x11" "0x22" "0x02000002" 2 ZeldaUCode_init, OF h1 h2 h3 h4 h5]
       h1 h2 h3 h4 h5
  show ?thesis by blast
qed

section \<open>Claims about the PulseAudio underflow callback\<close>

text \<open>
  Claim C10, as the callback computes it. Every invocation of \<open>UnderflowCallback\<close>
  adds \<open>BUFFER_SIZE = 2048\<close> to \<open>tlength\<close> in 32-bit unsigned arithmetic and passes
  the new attributes to the stream. No cap is applied: as long as \<open>tlength\<close> is at
  most \<open>2^32 - 2049\<close> the new value is exactly 2048 larger; beyond that it wraps
  around modulo \<open>2^32\<close>.
\<close>

theorem UnderflowCallback_latency:
  "BUFFER_SIZE = 2048 \<and>
   tlength (m_pa_ba (UnderflowCallback p)) = tlength (m_pa_ba p) + of_nat BUFFER_SIZE \<and>
   uint (tlength (m_pa_ba (UnderflowCallback p))) = (uint (tlength (m_pa_ba p)) + 2048) mod 2 ^ 32 \<and>
   (uint (tlength (m_pa_ba p)) \<le> 2 ^ 32 - 2049 \<longrightarrow>
      uint (tlength (m_pa_ba (UnderflowCallback p))) = uint (tlength (m_pa_ba p)) + 2048) \<and>
   buffer_attr_requests (UnderflowCallback p) =
     buffer_attr_requests p @ [m_pa_ba (UnderflowCallback p)]"
proof -
  have t: "tlength (m_pa_ba (UnderflowCallback p)) = tlength (m_pa_ba p) + 2048"
    by (rule UnderflowCallback_tlength)
  have u: "uint (tlength (m_pa_ba p) + 2048) = (uint (tlength (m_pa_ba p)) + 2048) mod 2 ^ 32"
    by (simp add: uint_word_ariths)
  have "uint (tlength (m_pa_ba p)) \<le> 2 ^ 32 - 2049 \<longrightarrow>
        (uint (tlength (m_pa_ba p)) + 2048) mod 2 ^ 32 = uint (tlength (m_pa_ba p)) + 2048"
    by (simp add: mod_pos_pos_trivial)
  moreover have "buffer_attr_requests (UnderflowCallback p) =
     buffer_attr_requests p @ [m_pa_ba (UnderflowCallback p)]"
    by (simp add: UnderflowCallback_def Let_def)
  ultimately show ?thesis using t u by (simp add: BUFFER_SIZE_value)
qed

text \<open>
  An instance of the theorem for C10: the first underflow after \<open>PulseInit\<close>.
\<close>

theorem UnderflowCallback_latency_witness:
  "uint (tlength (m_pa_ba PulseInit_state)) \<le> 2 ^ 32 - 2049 \<and>
   uint (tlength (m_pa_ba (UnderflowCallback PulseInit_state))) = 4096"
proof -
  have h: "tlength (m_pa_ba PulseInit_state) = 2048"
    by (simp add: PulseInit_state_def PulseInit_buffer_attr_def BUFFER_SIZE_value)
  have "uint (tlength (m_pa_ba (UnderflowCallback PulseInit_state))) =
          (uint (tlength (m_pa_ba PulseInit_state)) + 2048) mod 2 ^ 32"
    using UnderflowCallback_latency [of PulseInit_state] by blast
  then show ?thesis by (simp add: h)
qed

text \<open>
  Claim C10 as stated, an increase by 2048 at every invocation without upper bound, fails
  at the invocation number 2097151 after \<open>PulseInit\<close>: \<open>tlength\<close> is 4294965248
  before it and 0 after it.
\<close>

theorem UnderflowCallback_latency_counterexample:
  "uint (tlength (m_pa_ba ((UnderflowCallback ^^ 2097150) PulseInit_state))) = 4294965248 \<and>
   uint (tlength (m_pa_ba (UnderflowCallback ((UnderflowCallback ^^ 2097150) PulseInit_state)))) = 0"
proof -
  have h: "tlength (m_pa_ba PulseInit_state) = 2048"
    by (simp add: PulseInit_state_def PulseInit_buffer_attr_def BUFFER_SIZE_value)
  have a: "tlength (m_pa_ba ((UnderflowCallback ^^ 2097150) PulseInit_state)) = 4294965248"
    by (simp add: UnderflowCallback_funpow_tlength h)
  have b: "tlength (m_pa_ba (UnderflowCallback ((UnderflowCallback ^^ 2097150) PulseInit_state))) = 0"
    by (simp add: UnderflowCallback_tlength a)
  show ?thesis by (simp add: a b)
qed

end
